theory Spec2Isabelle
  imports Complex_Main
begin

section \<open>JavaScript numbers\<close>

text \<open>
  The hook computes with JavaScript numbers. A number is modelled as a finite real or one
  of the three non-finite IEEE values; the division in \<open>getScrollTargetOffset\<close> is the one
  place of the hook where a non-finite value can arise from finite ones. Rounding of
  doubles and the sign of zero are not modelled: arithmetic on finite values is exact and
  zero is positive zero.
\<close>

datatype jsnum = Num real | PosInf | NegInf | NaN

fun jneg :: "jsnum \<Rightarrow> jsnum" where
  "jneg (Num a) = Num (- a)"
| "jneg PosInf = NegInf"
| "jneg NegInf = PosInf"
| "jneg NaN = NaN"

fun jadd :: "jsnum \<Rightarrow> jsnum \<Rightarrow> jsnum" where
  "jadd (Num a) (Num b) = Num (a + b)"
| "jadd NaN _ = NaN"
| "jadd _ NaN = NaN"
| "jadd PosInf NegInf = NaN"
| "jadd NegInf PosInf = NaN"
| "jadd PosInf _ = PosInf"
| "jadd _ PosInf = PosInf"
| "jadd NegInf _ = NegInf"
| "jadd _ NegInf = NegInf"

definition jsub :: "jsnum \<Rightarrow> jsnum \<Rightarrow> jsnum" where
  "jsub a b = jadd a (jneg b)"

definition inf_signed :: "bool \<Rightarrow> jsnum" where
  "inf_signed positive = (if positive then PosInf else NegInf)"

fun jmul :: "jsnum \<Rightarrow> jsnum \<Rightarrow> jsnum" where
  "jmul (Num a) (Num b) = Num (a * b)"
| "jmul NaN _ = NaN"
| "jmul _ NaN = NaN"
| "jmul PosInf (Num b) = (if b = 0 then NaN else inf_signed (0 < b))"
| "jmul NegInf (Num b) = (if b = 0 then NaN else inf_signed (b < 0))"
| "jmul (Num a) PosInf = (if a = 0 then NaN else inf_signed (0 < a))"
| "jmul (Num a) NegInf = (if a = 0 then NaN else inf_signed (a < 0))"
| "jmul PosInf PosInf = PosInf"
| "jmul PosInf NegInf = NegInf"
| "jmul NegInf PosInf = NegInf"
| "jmul NegInf NegInf = PosInf"

fun jdiv :: "jsnum \<Rightarrow> jsnum \<Rightarrow> jsnum" where
  "jdiv (Num a) (Num b) =
     (if b \<noteq> 0 then Num (a / b) else if a = 0 then NaN else inf_signed (0 < a))"
| "jdiv NaN _ = NaN"
| "jdiv _ NaN = NaN"
| "jdiv (Num a) PosInf = Num 0"
| "jdiv (Num a) NegInf = Num 0"
| "jdiv PosInf (Num b) = inf_signed (0 \<le> b)"
| "jdiv NegInf (Num b) = inf_signed (b < 0)"
| "jdiv _ _ = NaN"

fun jlt :: "jsnum \<Rightarrow> jsnum \<Rightarrow> bool" where
  "jlt (Num a) (Num b) = (a < b)"
| "jlt NaN _ = False"
| "jlt _ NaN = False"
| "jlt PosInf _ = False"
| "jlt _ NegInf = False"
| "jlt _ _ = True"

fun jeq :: "jsnum \<Rightarrow> jsnum \<Rightarrow> bool" where
  "jeq (Num a) (Num b) = (a = b)"
| "jeq PosInf PosInf = True"
| "jeq NegInf NegInf = True"
| "jeq _ _ = False"

definition jle :: "jsnum \<Rightarrow> jsnum \<Rightarrow> bool" where
  "jle a b = (jlt a b \<or> jeq a b)"

definition jge :: "jsnum \<Rightarrow> jsnum \<Rightarrow> bool" where
  "jge a b = jle b a"

text \<open>\<open>Math.max\<close> of two numbers: \<open>NaN\<close> as soon as one argument is.\<close>

fun jmax :: "jsnum \<Rightarrow> jsnum \<Rightarrow> jsnum" where
  "jmax (Num a) (Num b) = Num (max a b)"
| "jmax NaN _ = NaN"
| "jmax _ NaN = NaN"
| "jmax PosInf _ = PosInf"
| "jmax _ PosInf = PosInf"
| "jmax NegInf b = b"
| "jmax a NegInf = a"

fun jabs :: "jsnum \<Rightarrow> jsnum" where
  "jabs (Num a) = Num \<bar>a\<bar>"
| "jabs NaN = NaN"
| "jabs _ = PosInf"

text \<open>Truthiness of a number (\<open>!!v\<close>, and the test of \<open>cond\<close>, \<open>and\<close>, \<open>or\<close>, \<open>not\<close>).\<close>

fun truthy :: "jsnum \<Rightarrow> bool" where
  "truthy (Num a) = (a \<noteq> 0)"
| "truthy NaN = False"
| "truthy _ = True"

definition of_flag :: "bool \<Rightarrow> jsnum" where
  "of_flag b = Num (if b then 1 else 0)"

section \<open>Configuration\<close>

text \<open>
  The props \<open>autoscrollThreshold\<close> and \<open>autoscrollSpeed\<close>, and what the hook imports:
  \<open>isAndroid\<close> and \<open>SCROLL_POSITION_TOLERANCE\<close> of \<open>../constants\<close>, \<open>GestureState.ACTIVE\<close> of
  the gesture handler. The imported constants are parameters of the model. The list the
  hook scrolls is the environment: it takes the scroll command, is absent (the optional
  call does nothing), or throws.
\<close>

datatype flatlist = Scrolls | Absent | Throws

record config =
  autoscrollThreshold :: real
  autoscrollSpeed :: real
  isAndroid :: bool
  SCROLL_POSITION_TOLERANCE :: real
  ACTIVE :: real
  flatlistRef :: flatlist

section \<open>The target offset\<close>

text \<open>The constants \<open>speedPct\<close>, \<open>speed\<close> and \<open>offset\<close> of \<open>getScrollTargetOffset\<close>.\<close>

definition speedPct :: "config \<Rightarrow> jsnum \<Rightarrow> jsnum" where
  "speedPct cfg distFromEdge = jsub (Num 1) (jdiv distFromEdge (Num (autoscrollThreshold cfg)))"

definition speed :: "config \<Rightarrow> jsnum" where
  "speed cfg = (if isAndroid cfg then jdiv (Num (autoscrollSpeed cfg)) (Num 10)
                else Num (autoscrollSpeed cfg))"

definition offset :: "config \<Rightarrow> jsnum \<Rightarrow> jsnum" where
  "offset cfg distFromEdge = jmul (speedPct cfg distFromEdge) (speed cfg)"

text \<open>
  \<open>getScrollTargetOffset\<close>; its first argument is the flag
  \<open>isAutoScrollInProgress.current.js\<close> that the source reads from the ref.
\<close>

definition getScrollTargetOffset ::
  "config \<Rightarrow> bool \<Rightarrow> jsnum \<Rightarrow> jsnum \<Rightarrow> jsnum \<Rightarrow> bool \<Rightarrow> bool \<Rightarrow> jsnum" where
  "getScrollTargetOffset cfg inProgressJS distFromTop distFromBottom scrollOffset
       isScrolledUp isScrolledDown =
     (if inProgressJS then Num (- 1)
      else
        let scrollUp = jlt distFromTop (Num (autoscrollThreshold cfg));
            scrollDown = jlt distFromBottom (Num (autoscrollThreshold cfg))
        in if \<not> (scrollUp \<or> scrollDown) \<or> (scrollUp \<and> isScrolledUp)
              \<or> (scrollDown \<and> isScrolledDown)
           then Num (- 1)
           else
             let distFromEdge = (if scrollUp then distFromTop else distFromBottom)
             in if scrollUp then jmax (Num 0) (jsub scrollOffset (offset cfg distFromEdge))
                else jadd scrollOffset (offset cfg distFromEdge))"

text \<open>The effective speed and the delta on finite values, as real numbers.\<close>

definition effectiveSpeed :: "config \<Rightarrow> real" where
  "effectiveSpeed cfg = (if isAndroid cfg then autoscrollSpeed cfg / 10 else autoscrollSpeed cfg)"

definition delta :: "config \<Rightarrow> real \<Rightarrow> real" where
  "delta cfg distFromEdge = (1 - distFromEdge / autoscrollThreshold cfg) * effectiveSpeed cfg"

section \<open>Facts about the number operations\<close>

lemma jsub_Num [simp]: "jsub (Num a) (Num b) = Num (a - b)"
  by (simp add: jsub_def)

lemma jle_Num [simp]: "jle (Num a) (Num b) = (a \<le> b)"
  by (auto simp add: jle_def)

lemma jge_Num [simp]: "jge (Num a) (Num b) = (b \<le> a)"
  by (simp add: jge_def)

lemma speed_finite: "speed cfg = Num (effectiveSpeed cfg)"
  by (simp add: speed_def effectiveSpeed_def)

lemma offset_finite:
  "autoscrollThreshold cfg \<noteq> 0 \<Longrightarrow> offset cfg (Num d) = Num (delta cfg d)"
  by (simp add: offset_def speedPct_def speed_finite delta_def)



text \<open>
  Two distances under one threshold give deltas of one sign, the nearer one the larger in
  magnitude, whatever the sign of the speed.
\<close>

lemma delta_ordered:
  assumes "d1 \<le> d2" "d2 < autoscrollThreshold cfg" "0 < autoscrollThreshold cfg"
  shows "(0 \<le> delta cfg d2 \<and> delta cfg d2 \<le> delta cfg d1)
       \<or> (delta cfg d1 \<le> delta cfg d2 \<and> delta cfg d2 \<le> 0)"
proof -
  let ?T = "autoscrollThreshold cfg"
  have le: "1 - d2 / ?T \<le> 1 - d1 / ?T"
    using assms by (simp add: divide_right_mono)
  have pos: "0 \<le> 1 - d2 / ?T"
    using assms by simp
  show ?thesis
  proof (cases "0 \<le> effectiveSpeed cfg")
    case True
    then have "delta cfg d2 \<le> delta cfg d1" "0 \<le> delta cfg d2"
      using le pos by (simp_all add: delta_def mult_right_mono)
    then show ?thesis by simp
  next
    case False
    then have "delta cfg d1 \<le> delta cfg d2" "delta cfg d2 \<le> 0"
      using le pos by (simp_all add: delta_def mult_right_mono_neg mult_nonneg_nonpos)
    then show ?thesis by simp
  qed
qed

lemma magnitude_up:
  assumes "(0 \<le> e2 \<and> e2 \<le> e1) \<or> (e1 \<le> e2 \<and> e2 \<le> (0::real))"
  shows "\<bar>off - max 0 (off - e2)\<bar> \<le> \<bar>off - max 0 (off - e1)\<bar>"
  using assms by (auto simp add: max_def abs_if split: if_splits)

lemma magnitude_down:
  assumes "(0 \<le> e2 \<and> e2 \<le> e1) \<or> (e1 \<le> e2 \<and> e2 \<le> (0::real))"
  shows "\<bar>off + e2 - off\<bar> \<le> \<bar>off + e1 - off\<bar>"
  using assms by (auto simp add: abs_if split: if_splits)

section \<open>Properties of the target offset\<close>

text \<open>
  The configuration of the specification's scenarios: threshold 50, speed 100, not
  Android; the same with threshold 0; and the same with speed -100.
\<close>

definition example_config :: config where
  "example_config = \<lparr>autoscrollThreshold = 50, autoscrollSpeed = 100, isAndroid = False,
     SCROLL_POSITION_TOLERANCE = 2, ACTIVE = 4, flatlistRef = Scrolls\<rparr>"

definition zero_threshold_config :: config where
  "zero_threshold_config = example_config\<lparr>autoscrollThreshold := 0\<rparr>"


text \<open>
  Claim C1, as amended. When no scroll is in flight, an edge is within the threshold and
  neither guard of the source holds (not: top edge within the threshold and scrolled up;
  not: bottom edge within the threshold and scrolled down), the result on finite inputs
  is \<open>max(0, scrollOffset - delta)\<close> with the top distance when the top edge is within the
  threshold, and \<open>scrollOffset + delta\<close> with the bottom distance otherwise, the delta
  being \<open>(1 - distFromEdge / threshold) * speed\<close> in JavaScript arithmetic; for a threshold
  other than 0 that is the real number \<open>delta\<close>, with the speed divided by 10 on Android.
\<close>

theorem getScrollTargetOffset_target:
  assumes "\<not> inProgressJS"
    and "t < autoscrollThreshold cfg \<or> b < autoscrollThreshold cfg"
    and "\<not> (t < autoscrollThreshold cfg \<and> isScrolledUp)"
    and "\<not> (b < autoscrollThreshold cfg \<and> isScrolledDown)"
  shows "getScrollTargetOffset cfg inProgressJS (Num t) (Num b) (Num off) isScrolledUp isScrolledDown
         = (if t < autoscrollThreshold cfg
            then jmax (Num 0) (jsub (Num off) (jmul (speedPct cfg (Num t)) (speed cfg)))
            else jadd (Num off) (jmul (speedPct cfg (Num b)) (speed cfg)))
       \<and> speed cfg = Num (effectiveSpeed cfg)
       \<and> (autoscrollThreshold cfg \<noteq> 0 \<longrightarrow>
          getScrollTargetOffset cfg inProgressJS (Num t) (Num b) (Num off) isScrolledUp isScrolledDown
          = Num (if t < autoscrollThreshold cfg then max 0 (off - delta cfg t)
                 else off + delta cfg b))"
proof (intro conjI impI)
  show "getScrollTargetOffset cfg inProgressJS (Num t) (Num b) (Num off) isScrolledUp isScrolledDown
         = (if t < autoscrollThreshold cfg
            then jmax (Num 0) (jsub (Num off) (jmul (speedPct cfg (Num t)) (speed cfg)))
            else jadd (Num off) (jmul (speedPct cfg (Num b)) (speed cfg)))"
    using assms by (auto simp add: getScrollTargetOffset_def Let_def offset_def)
  show "speed cfg = Num (effectiveSpeed cfg)"
    by (rule speed_finite)
  assume "autoscrollThreshold cfg \<noteq> 0"
  then show "getScrollTargetOffset cfg inProgressJS (Num t) (Num b) (Num off) isScrolledUp isScrolledDown
          = Num (if t < autoscrollThreshold cfg then max 0 (off - delta cfg t)
                 else off + delta cfg b)"
    using assms by (auto simp add: getScrollTargetOffset_def Let_def offset_finite)
qed

text \<open>
  The scenario of the specification: threshold 50, speed 100, top distance 10, scroll
  offset 200, not scrolled up (and the bottom edge out of reach): the target is 120.
\<close>

theorem getScrollTargetOffset_target_witness:
  "getScrollTargetOffset example_config False (Num 10) (Num 300) (Num 200) False False = Num 120"
  using getScrollTargetOffset_target [of False 10 example_config 300 False False 200, THEN conjunct2]
  by (simp add: example_config_def delta_def effectiveSpeed_def)

text \<open>
  Claim C1 as stated fails when both edges are within the threshold: the top direction
  applies and its flag \<open>isScrolledUp\<close> is false, but the list is scrolled down, and the
  source returns the sentinel where the claim gives \<open>max(0, 200 - 80) = 120\<close>.
\<close>

theorem getScrollTargetOffset_target_counterexample:
  "getScrollTargetOffset example_config False (Num 10) (Num 10) (Num 200) False True = Num (- 1)
   \<and> max 0 (200 - delta example_config 10) = 120"
  by (simp add: getScrollTargetOffset_def example_config_def delta_def effectiveSpeed_def)

text \<open>
  Claim C4. \<open>getScrollTargetOffset\<close> returns the sentinel \<open>-1\<close> when the JS-side flag is
  set, when neither distance is under the threshold, when the top distance is under the
  threshold and the list is scrolled up, and when the bottom distance is under the
  threshold and the list is scrolled down; the inputs are any numbers.
\<close>

theorem getScrollTargetOffset_sentinel:
  "inProgressJS
   \<or> (\<not> jlt distFromTop (Num (autoscrollThreshold cfg))
        \<and> \<not> jlt distFromBottom (Num (autoscrollThreshold cfg)))
   \<or> (jlt distFromTop (Num (autoscrollThreshold cfg)) \<and> isScrolledUp)
   \<or> (jlt distFromBottom (Num (autoscrollThreshold cfg)) \<and> isScrolledDown)
   \<Longrightarrow> getScrollTargetOffset cfg inProgressJS distFromTop distFromBottom scrollOffset
         isScrolledUp isScrolledDown = Num (- 1)"
  by (auto simp add: getScrollTargetOffset_def Let_def)

theorem getScrollTargetOffset_sentinel_witness:
  "jlt (Num 10) (Num (autoscrollThreshold example_config))
   \<and> getScrollTargetOffset example_config False (Num 10) (Num 300) (Num 0) True False = Num (- 1)"
  using getScrollTargetOffset_sentinel [of False "Num 10" example_config "Num 300" True False "Num 0"]
  by (simp add: example_config_def)

text \<open>
  Claim C8. For distances \<open>0 \<le> d1 \<le> d2\<close> under the threshold, all else fixed, the
  result at \<open>d1\<close> is at least as far from the scroll offset as the result at \<open>d2\<close>: for
  the top edge (first conjunct; the result is clamped at 0), and for the bottom edge when
  the top edge is out of reach (second conjunct). Where the flags make both calls return
  the sentinel the two sides are equal.
\<close>

theorem getScrollTargetOffset_antitone:
  assumes "0 \<le> d1" "d1 \<le> d2" "d2 < autoscrollThreshold cfg"
  shows "(\<exists>r1 r2. getScrollTargetOffset cfg js (Num d1) (Num b) (Num off) up down = Num r1
            \<and> getScrollTargetOffset cfg js (Num d2) (Num b) (Num off) up down = Num r2
            \<and> \<bar>off - r2\<bar> \<le> \<bar>off - r1\<bar>)
       \<and> (autoscrollThreshold cfg \<le> t \<longrightarrow>
           (\<exists>r1 r2. getScrollTargetOffset cfg js (Num t) (Num d1) (Num off) up down = Num r1
            \<and> getScrollTargetOffset cfg js (Num t) (Num d2) (Num off) up down = Num r2
            \<and> \<bar>r2 - off\<bar> \<le> \<bar>r1 - off\<bar>))"
proof -
  have T: "0 < autoscrollThreshold cfg" "autoscrollThreshold cfg \<noteq> 0"
    "d1 < autoscrollThreshold cfg"
    using assms by auto
  note ord = delta_ordered [OF assms(2) assms(3) T(1)]
  have up: "\<bar>off - max 0 (off - delta cfg d2)\<bar> \<le> \<bar>off - max 0 (off - delta cfg d1)\<bar>"
    using ord by (rule magnitude_up)
  have down: "\<bar>off + delta cfg d2 - off\<bar> \<le> \<bar>off + delta cfg d1 - off\<bar>"
    using ord by (rule magnitude_down)
  show ?thesis
    using T assms(3) up down
    by (simp add: getScrollTargetOffset_def Let_def offset_finite)
qed

text \<open>
  At distances 10 and 30 from the top, offset 200: targets 120 and 160; from the bottom:
  targets 280 and 240.
\<close>

theorem getScrollTargetOffset_antitone_witness:
  "getScrollTargetOffset example_config False (Num 10) (Num 300) (Num 200) False False = Num 120
   \<and> getScrollTargetOffset example_config False (Num 30) (Num 300) (Num 200) False False = Num 160
   \<and> \<bar>200 - 160 :: real\<bar> \<le> \<bar>200 - 120\<bar>
   \<and> getScrollTargetOffset example_config False (Num 50) (Num 10) (Num 200) False False = Num 280
   \<and> getScrollTargetOffset example_config False (Num 50) (Num 30) (Num 200) False False = Num 240
   \<and> \<bar>240 - 200 :: real\<bar> \<le> \<bar>280 - 200\<bar>"
  using getScrollTargetOffset_antitone [of 10 30 example_config False 300 200 False False 50]
  by (simp add: example_config_def getScrollTargetOffset_def offset_finite delta_def
      effectiveSpeed_def)

text \<open>
  Claim C9, as amended: for a threshold above 0. At a distance equal to the threshold
  the ramp \<open>speedPct\<close> is 0 and so is the delta, and the source returns the sentinel for an
  edge at that distance when the other edge is no nearer, so nothing moves. At distance 0
  the ramp is 1 and the delta is the effective speed (the speed, divided by 10 on
  Android), which for a speed that is not negative is the largest delta of any distance
  \<open>d \<ge> 0\<close>; the target is then \<open>max(0, scrollOffset - speed)\<close> at the top edge and
  \<open>scrollOffset + speed\<close> at the bottom edge.
\<close>

theorem speedPct_ramp:
  assumes "0 < autoscrollThreshold cfg"
  shows "speedPct cfg (Num (autoscrollThreshold cfg)) = Num 0
       \<and> offset cfg (Num (autoscrollThreshold cfg)) = Num 0
       \<and> (autoscrollThreshold cfg \<le> b \<longrightarrow>
            getScrollTargetOffset cfg js (Num (autoscrollThreshold cfg)) (Num b) (Num off) up down
              = Num (- 1))
       \<and> (autoscrollThreshold cfg \<le> t \<longrightarrow>
            getScrollTargetOffset cfg js (Num t) (Num (autoscrollThreshold cfg)) (Num off) up down
              = Num (- 1))
       \<and> speedPct cfg (Num 0) = Num 1
       \<and> offset cfg (Num 0) = Num (effectiveSpeed cfg)
       \<and> (0 \<le> d \<and> 0 \<le> autoscrollSpeed cfg \<longrightarrow>
            offset cfg (Num d) = Num (delta cfg d) \<and> delta cfg d \<le> effectiveSpeed cfg)
       \<and> (\<not> js \<and> \<not> up \<and> \<not> (b < autoscrollThreshold cfg \<and> down) \<longrightarrow>
            getScrollTargetOffset cfg js (Num 0) (Num b) (Num off) up down
              = Num (max 0 (off - effectiveSpeed cfg)))
       \<and> (\<not> js \<and> \<not> down \<and> autoscrollThreshold cfg \<le> t \<longrightarrow>
            getScrollTargetOffset cfg js (Num t) (Num 0) (Num off) up down
              = Num (off + effectiveSpeed cfg))"
proof -
  have nz: "autoscrollThreshold cfg \<noteq> 0" using assms by simp
  have a: "speedPct cfg (Num (autoscrollThreshold cfg)) = Num 0"
    using nz by (simp add: speedPct_def)
  have b: "offset cfg (Num (autoscrollThreshold cfg)) = Num 0"
    using nz by (simp add: offset_finite delta_def)
  have c: "speedPct cfg (Num 0) = Num 1"
    using nz by (simp add: speedPct_def)
  have d0: "delta cfg 0 = effectiveSpeed cfg"
    by (simp add: delta_def)
  have e: "offset cfg (Num 0) = Num (effectiveSpeed cfg)"
    using nz by (simp add: offset_finite d0)
  have f: "0 \<le> d \<and> 0 \<le> autoscrollSpeed cfg \<longrightarrow>
            offset cfg (Num d) = Num (delta cfg d) \<and> delta cfg d \<le> effectiveSpeed cfg"
  proof (intro impI conjI)
    assume h: "0 \<le> d \<and> 0 \<le> autoscrollSpeed cfg"
    show "offset cfg (Num d) = Num (delta cfg d)" using nz by (rule offset_finite)
    have "0 \<le> effectiveSpeed cfg" using h by (simp add: effectiveSpeed_def)
    moreover have "1 - d / autoscrollThreshold cfg \<le> 1" using h assms by simp
    ultimately have "(1 - d / autoscrollThreshold cfg) * effectiveSpeed cfg
        \<le> 1 * effectiveSpeed cfg"
      by (rule mult_right_mono [rotated])
    then show "delta cfg d \<le> effectiveSpeed cfg" by (simp add: delta_def)
  qed
  have g: "autoscrollThreshold cfg \<le> b \<longrightarrow>
            getScrollTargetOffset cfg js (Num (autoscrollThreshold cfg)) (Num b) (Num off) up down
              = Num (- 1)"
    by (simp add: getScrollTargetOffset_def)
  have h: "autoscrollThreshold cfg \<le> t \<longrightarrow>
            getScrollTargetOffset cfg js (Num t) (Num (autoscrollThreshold cfg)) (Num off) up down
              = Num (- 1)"
    by (simp add: getScrollTargetOffset_def)
  have i: "\<not> js \<and> \<not> up \<and> \<not> (b < autoscrollThreshold cfg \<and> down) \<longrightarrow>
            getScrollTargetOffset cfg js (Num 0) (Num b) (Num off) up down
              = Num (max 0 (off - effectiveSpeed cfg))"
    using assms e by (auto simp add: getScrollTargetOffset_def Let_def)
  have j: "\<not> js \<and> \<not> down \<and> autoscrollThreshold cfg \<le> t \<longrightarrow>
            getScrollTargetOffset cfg js (Num t) (Num 0) (Num off) up down
              = Num (off + effectiveSpeed cfg)"
    using assms e by (auto simp add: getScrollTargetOffset_def Let_def)
  from a b c e f g h i j show ?thesis by blast
qed

theorem speedPct_ramp_witness:
  "speedPct example_config (Num 50) = Num 0
   \<and> getScrollTargetOffset example_config False (Num 50) (Num 300) (Num 200) False False = Num (- 1)
   \<and> speedPct example_config (Num 0) = Num 1
   \<and> offset example_config (Num 0) = Num 100
   \<and> delta example_config 10 \<le> 100
   \<and> getScrollTargetOffset example_config False (Num 0) (Num 300) (Num 200) False False = Num 100
   \<and> getScrollTargetOffset example_config False (Num 300) (Num 0) (Num 200) False False = Num 300"
  using speedPct_ramp [of example_config 300 False 200 False False 300 10]
  by (simp add: example_config_def effectiveSpeed_def)

text \<open>
  Claim C9 as stated fails for the threshold 0, which the data model allows: at distance
  0, which is also the threshold, the ramp \<open>1 - 0 / 0\<close> is \<open>NaN\<close>, neither 0 nor 1, and the
  source returns the sentinel, not a target one full speed away.
\<close>

theorem speedPct_ramp_counterexample:
  "speedPct zero_threshold_config (Num 0) = NaN
   \<and> getScrollTargetOffset zero_threshold_config False (Num 0) (Num 0) (Num 200) False False
       = Num (- 1)"
  by (simp add: zero_threshold_config_def example_config_def speedPct_def jsub_def
      getScrollTargetOffset_def)




section \<open>Animated values and nodes\<close>

text \<open>
  The animated values the hook reads from its context, and the two it creates
  (\<open>targetScrollOffset\<close>, \<open>isAutoScrollInProgressNative\<close>). The native side holds them in a
  store. The parameters \<open>scrollOffset\<close>, \<open>isScrolledUp\<close> and \<open>isScrolledDown\<close> of
  \<open>getScrollTargetOffset\<close> above shadow the value and the nodes of the same names, as they
  do in the source.
\<close>

datatype anim = scrollOffset | scrollViewSize | containerSize | hoverAnim | isDraggingCell
  | activeCellSize | panGestureState | targetScrollOffset | isAutoScrollInProgressNative

type_synonym store = "anim \<Rightarrow> jsnum"

text \<open>
  The node operators the hook imports from the animation library, named as there with
  the suffix \<open>N\<close>. An operator that computes a number is an \<open>expr\<close>: evaluating it reads the
  store and changes nothing. \<open>add\<close>, \<open>and\<close> and \<open>or\<close> take two arguments and any number of
  further ones, and fold from the left. A comparison and a logical operator give 1 or 0;
  \<open>and\<close> and \<open>or\<close> look at the truthiness of their arguments.
\<close>

datatype expr =
    valueN anim
  | constN real
  | subN expr expr
  | addN expr expr "expr list"
  | maxN expr expr
  | absN expr
  | lessOrEqN expr expr
  | greaterOrEqN expr expr
  | eqN expr expr
  | andN expr expr "expr list"
  | orN expr expr "expr list"
  | notN expr

fun ev :: "store \<Rightarrow> expr \<Rightarrow> jsnum" where
  "ev s (valueN a) = s a"
| "ev s (constN r) = Num r"
| "ev s (subN a b) = jsub (ev s a) (ev s b)"
| "ev s (addN a b others) = foldl jadd (jadd (ev s a) (ev s b)) (map (ev s) others)"
| "ev s (maxN a b) = jmax (ev s a) (ev s b)"
| "ev s (absN a) = jabs (ev s a)"
| "ev s (lessOrEqN a b) = of_flag (jle (ev s a) (ev s b))"
| "ev s (greaterOrEqN a b) = of_flag (jge (ev s a) (ev s b))"
| "ev s (eqN a b) = of_flag (jeq (ev s a) (ev s b))"
| "ev s (andN a b others) =
     of_flag (truthy (ev s a) \<and> truthy (ev s b) \<and> list_all (\<lambda>e. truthy (ev s e)) others)"
| "ev s (orN a b others) =
     of_flag (truthy (ev s a) \<or> truthy (ev s b) \<or> list_ex (\<lambda>e. truthy (ev s e)) others)"
| "ev s (notN a) = of_flag (\<not> truthy (ev s a))"

text \<open>
  The operators with an effect: \<open>cond\<close> with a block and no else branch, \<open>set\<close>, and \<open>call\<close>,
  which hands the values of its arguments to a JavaScript callback. Executing one gives
  the new store and the calls made, in order.
\<close>

datatype callback = autoscroll_cb | onAutoscrollComplete_cb

datatype action =
    condN expr "action list"
  | setN anim expr
  | callN "expr list" callback

type_synonym calls = "(callback \<times> jsnum list) list"

fun exec :: "action \<Rightarrow> store \<Rightarrow> store \<times> calls"
  and execs :: "action list \<Rightarrow> store \<Rightarrow> store \<times> calls" where
  "exec (condN c thenBlock) s = (if truthy (ev s c) then execs thenBlock s else (s, []))"
| "exec (setN a e) s = (s(a := ev s e), [])"
| "exec (callN args cb) s = (s, [(cb, map (ev s) args)])"
| "execs [] s = (s, [])"
| "execs (a # as) s =
     (case exec a s of (s1, c1) \<Rightarrow> (case execs as s1 of (s2, c2) \<Rightarrow> (s2, c1 @ c2)))"

subsection \<open>The nodes of the hook\<close>

definition isScrolledUp :: "config \<Rightarrow> expr" where
  "isScrolledUp cfg =
     lessOrEqN (subN (valueN scrollOffset) (constN (SCROLL_POSITION_TOLERANCE cfg))) (constN 0)"

definition isScrolledDown :: "config \<Rightarrow> expr" where
  "isScrolledDown cfg =
     greaterOrEqN
       (addN (valueN scrollOffset) (valueN containerSize) [constN (SCROLL_POSITION_TOLERANCE cfg)])
       (valueN scrollViewSize)"

definition distToTopEdge :: expr where
  "distToTopEdge = maxN (constN 0) (valueN hoverAnim)"

definition distToBottomEdge :: expr where
  "distToBottomEdge =
     maxN (constN 0) (subN (valueN containerSize) (addN (valueN hoverAnim) (valueN activeCellSize) []))"

definition isAtTopEdge :: "config \<Rightarrow> expr" where
  "isAtTopEdge cfg = lessOrEqN distToTopEdge (constN (autoscrollThreshold cfg))"

definition isAtBottomEdge :: "config \<Rightarrow> expr" where
  "isAtBottomEdge cfg = lessOrEqN distToBottomEdge (constN (autoscrollThreshold cfg))"

definition isAtEdge :: "config \<Rightarrow> expr" where
  "isAtEdge cfg = orN (isAtBottomEdge cfg) (isAtTopEdge cfg) []"

definition autoscrollParams :: "config \<Rightarrow> expr list" where
  "autoscrollParams cfg =
     [distToTopEdge, distToBottomEdge, valueN scrollOffset, isScrolledUp cfg, isScrolledDown cfg]"

definition checkAutoscroll :: "config \<Rightarrow> action" where
  "checkAutoscroll cfg =
     condN
       (andN (isAtEdge cfg)
          (notN (andN (isAtTopEdge cfg) (isScrolledUp cfg) []))
          [notN (andN (isAtBottomEdge cfg) (isScrolledDown cfg) []),
           eqN (valueN panGestureState) (constN (ACTIVE cfg)),
           notN (valueN isAutoScrollInProgressNative)])
       [callN (autoscrollParams cfg) autoscroll_cb]"

definition onScrollNode :: "config \<Rightarrow> action" where
  "onScrollNode cfg =
     condN
       (andN (valueN isAutoScrollInProgressNative)
          (orN
             (lessOrEqN (absN (subN (valueN targetScrollOffset) (valueN scrollOffset)))
                (constN (SCROLL_POSITION_TOLERANCE cfg)))
             (andN (isScrolledUp cfg)
                (lessOrEqN (valueN targetScrollOffset) (valueN scrollOffset)) [])
             [andN (isScrolledDown cfg)
                (greaterOrEqN (valueN targetScrollOffset) (valueN scrollOffset)) []])
          [])
       [setN isAutoScrollInProgressNative (constN 0),
        callN (autoscrollParams cfg) onAutoscrollComplete_cb]"

text \<open>
  The snapshot a \<open>call\<close> passes: the values of \<open>autoscrollParams\<close>. The edge trigger
  triggers, and the completion detector fires, when the node makes its call.
\<close>

definition geometry :: "config \<Rightarrow> store \<Rightarrow> jsnum list" where
  "geometry cfg s = map (ev s) (autoscrollParams cfg)"

definition triggers :: "config \<Rightarrow> store \<Rightarrow> bool" where
  "triggers cfg s = (snd (exec (checkAutoscroll cfg) s) \<noteq> [])"

definition fires :: "config \<Rightarrow> store \<Rightarrow> bool" where
  "fires cfg s = (snd (exec (onScrollNode cfg) s) \<noteq> [])"

text \<open>A store of finite values, and the values of the specification's scenario.\<close>

definition numbers :: "(anim \<Rightarrow> real) \<Rightarrow> store" where
  "numbers v = (\<lambda>a. Num (v a))"

definition example_values :: "anim \<Rightarrow> real" where
  "example_values a =
     (case a of scrollOffset \<Rightarrow> 200 | scrollViewSize \<Rightarrow> 1000 | containerSize \<Rightarrow> 400
      | hoverAnim \<Rightarrow> 10 | isDraggingCell \<Rightarrow> 1 | activeCellSize \<Rightarrow> 50 | panGestureState \<Rightarrow> 4
      | targetScrollOffset \<Rightarrow> 0 | isAutoScrollInProgressNative \<Rightarrow> 0)"

subsection \<open>The geometry evaluator\<close>

lemma truthy_of_flag [simp]: "truthy (of_flag b) = b"
  by (simp add: of_flag_def)

lemma numbers_upd: "(numbers v)(a := Num r) = numbers (v(a := r))"
  by (auto simp add: numbers_def)

lemma ev_isScrolledUp:
  "ev (numbers v) (isScrolledUp cfg) = of_flag (v scrollOffset - SCROLL_POSITION_TOLERANCE cfg \<le> 0)"
  by (simp add: numbers_def isScrolledUp_def)

lemma ev_isScrolledDown:
  "ev (numbers v) (isScrolledDown cfg)
     = of_flag (v scrollOffset + v containerSize + SCROLL_POSITION_TOLERANCE cfg \<ge> v scrollViewSize)"
  by (simp add: numbers_def isScrolledDown_def)

lemma ev_distToTopEdge: "ev (numbers v) distToTopEdge = Num (max 0 (v hoverAnim))"
  by (simp add: numbers_def distToTopEdge_def)

lemma ev_distToBottomEdge:
  "ev (numbers v) distToBottomEdge = Num (max 0 (v containerSize - (v hoverAnim + v activeCellSize)))"
  by (simp add: numbers_def distToBottomEdge_def)

lemma ev_isAtTopEdge:
  "ev (numbers v) (isAtTopEdge cfg) = of_flag (max 0 (v hoverAnim) \<le> autoscrollThreshold cfg)"
  by (simp add: isAtTopEdge_def ev_distToTopEdge)

lemma ev_isAtBottomEdge:
  "ev (numbers v) (isAtBottomEdge cfg)
     = of_flag (max 0 (v containerSize - (v hoverAnim + v activeCellSize)) \<le> autoscrollThreshold cfg)"
  by (simp add: isAtBottomEdge_def ev_distToBottomEdge)

lemma ev_isAtEdge:
  "ev s (isAtEdge cfg) = of_flag (truthy (ev s (isAtTopEdge cfg)) \<or> truthy (ev s (isAtBottomEdge cfg)))"
proof -
  have "(b \<or> a) = (a \<or> b)" for a b :: bool by blast
  then show ?thesis
    by (simp add: isAtEdge_def del: ev.simps(7))
qed

text \<open>
  Claim C7. On finite values the seven nodes of the geometry evaluator have the values
  the claim gives, a flag being the number 1 or 0; \<open>containerSize\<close> is the viewport extent,
  \<open>scrollViewSize\<close> the content extent, \<open>hoverAnim\<close> the drag position and \<open>activeCellSize\<close>
  the extent of the dragged cell. The nodes are expressions: their evaluation \<open>ev\<close> returns
  a number and has no store to change.
\<close>

theorem geometry_nodes:
  "ev (numbers v) (isScrolledUp cfg)
     = of_flag (v scrollOffset - SCROLL_POSITION_TOLERANCE cfg \<le> 0)
   \<and> ev (numbers v) (isScrolledDown cfg)
       = of_flag (v scrollOffset + v containerSize + SCROLL_POSITION_TOLERANCE cfg \<ge> v scrollViewSize)
   \<and> ev (numbers v) distToTopEdge = Num (max 0 (v hoverAnim))
   \<and> ev (numbers v) distToBottomEdge
       = Num (max 0 (v containerSize - (v hoverAnim + v activeCellSize)))
   \<and> ev (numbers v) (isAtTopEdge cfg)
       = of_flag (max 0 (v hoverAnim) \<le> autoscrollThreshold cfg)
   \<and> ev (numbers v) (isAtBottomEdge cfg)
       = of_flag (max 0 (v containerSize - (v hoverAnim + v activeCellSize))
                   \<le> autoscrollThreshold cfg)
   \<and> ev (numbers v) (isAtEdge cfg)
       = of_flag (truthy (ev (numbers v) (isAtTopEdge cfg))
                   \<or> truthy (ev (numbers v) (isAtBottomEdge cfg)))"
  by (simp only: ev_isScrolledUp ev_isScrolledDown ev_distToTopEdge ev_distToBottomEdge
      ev_isAtTopEdge ev_isAtBottomEdge ev_isAtEdge [of "numbers v"] simp_thms)

text \<open>
  The scenario of the specification: content 1000, viewport 400, scroll offset 200, the
  dragged cell of extent 50 at position 10, threshold 50.
\<close>

theorem geometry_nodes_witness:
  "ev (numbers example_values) (isScrolledUp example_config) = Num 0
   \<and> ev (numbers example_values) (isScrolledDown example_config) = Num 0
   \<and> ev (numbers example_values) distToTopEdge = Num 10
   \<and> ev (numbers example_values) distToBottomEdge = Num 340
   \<and> ev (numbers example_values) (isAtTopEdge example_config) = Num 1
   \<and> ev (numbers example_values) (isAtBottomEdge example_config) = Num 0
   \<and> ev (numbers example_values) (isAtEdge example_config) = Num 1"
  using geometry_nodes [of example_values example_config]
  by (simp add: example_values_def example_config_def of_flag_def)

section \<open>The JavaScript side\<close>

text \<open>
  The state of the hook: the store of animated values, and on the JavaScript side the
  refs \<open>isAutoScrollInProgress.current.js\<close>, \<open>isDraggingCellJS\<close>, \<open>autoscrollLooping\<close> and
  \<open>resolveAutoscroll\<close>. A promise is a number; \<open>resolveAutoscroll\<close> holds the promise its
  resolve function belongs to, \<open>awaited\<close> the pending promises on which a call of
  \<open>autoscroll\<close> is suspended, \<open>promises\<close> how many were created. \<open>scrollCommands\<close> are the
  offsets handed to the list's \<open>scrollToOffset\<close>. \<open>instances\<close> is not in the source: it
  counts the calls of \<open>autoscroll\<close> that have passed the guard and not yet left.
\<close>

record world =
  animated :: store
  inProgressJS :: bool
  isDraggingCellJS :: bool
  autoscrollLooping :: bool
  resolveAutoscroll :: "nat option"
  awaited :: "nat list"
  promises :: nat
  scrollCommands :: "jsnum list"
  instances :: int

definition mount :: "store \<Rightarrow> world" where
  "mount s =
     \<lparr>animated = s(targetScrollOffset := Num 0, isAutoScrollInProgressNative := Num 0),
      inProgressJS = False, isDraggingCellJS = False, autoscrollLooping = False,
      resolveAutoscroll = None, awaited = [], promises = 0, scrollCommands = [], instances = 0\<rparr>"

text \<open>
  \<open>scrollToAsync\<close>: the executor of the new promise stores its resolve function, sets the
  target and both flags and calls the list. When that call throws the promise is
  rejected, with the assignments done.
\<close>

datatype promise = Pending nat | Rejected

definition scrollToAsync :: "config \<Rightarrow> jsnum \<Rightarrow> world \<Rightarrow> promise \<times> world" where
  "scrollToAsync cfg offset' w =
     (let p = promises w;
          w1 = w\<lparr>promises := p + 1,
                 resolveAutoscroll := Some p,
                 animated := (animated w)(targetScrollOffset := offset',
                                          isAutoScrollInProgressNative := Num 1),
                 inProgressJS := True\<rparr>
      in case flatlistRef cfg of
           Scrolls \<Rightarrow> (Pending p, w1\<lparr>scrollCommands := scrollCommands w1 @ [offset']\<rparr>)
         | Absent \<Rightarrow> (Pending p, w1)
         | Throws \<Rightarrow> (Rejected, w1))"

text \<open>
  One pass of the body of the loop in \<open>autoscroll\<close>. \<open>param\<close> is the destructuring of
  \<open>curParams\<close>: a missing element is \<open>undefined\<close>, which every use here treats as \<open>NaN\<close>.
  \<open>targetOffset\<close> and \<open>shouldScroll\<close> are the constants of these names.
\<close>

definition param :: "jsnum list \<Rightarrow> nat \<Rightarrow> jsnum" where
  "param curParams i = (if i < length curParams then curParams ! i else NaN)"

definition targetOffset :: "config \<Rightarrow> jsnum list \<Rightarrow> world \<Rightarrow> jsnum" where
  "targetOffset cfg curParams w =
     getScrollTargetOffset cfg (inProgressJS w) (param curParams 0) (param curParams 1)
       (param curParams 2) (truthy (param curParams 3)) (truthy (param curParams 4))"

definition shouldScroll :: "config \<Rightarrow> jsnum list \<Rightarrow> world \<Rightarrow> bool" where
  "shouldScroll cfg curParams w =
     (let scrollOffset' = param curParams 2;
          isScrolledUp' = param curParams 3;
          isScrolledDown' = param curParams 4;
          scrollingUpAtTop =
            (truthy isScrolledUp' \<and> jle (targetOffset cfg curParams w) scrollOffset');
          scrollingDownAtBottom =
            (truthy isScrolledDown' \<and> jge (targetOffset cfg curParams w) scrollOffset')
      in jge (targetOffset cfg curParams w) (Num 0) \<and> isDraggingCellJS w
         \<and> \<not> scrollingUpAtTop \<and> \<not> scrollingDownAtBottom)"

text \<open>
  The loop runs until it awaits a pending promise or leaves. The \<open>catch\<close> swallows a
  rejected promise and the body runs again with the same \<open>curParams\<close>. Nothing in the body
  as modelled throws past the \<open>catch\<close>; \<open>Thrown\<close> stands for such an exit, which the
  \<open>finally\<close> clause handles like a return.
\<close>

datatype outcome = Suspended nat | Returned | Thrown

function autoscroll_loop :: "config \<Rightarrow> jsnum list \<Rightarrow> world \<Rightarrow> outcome \<times> world" where
  "autoscroll_loop cfg curParams w =
     (if shouldScroll cfg curParams w
      then (case scrollToAsync cfg (targetOffset cfg curParams w) w of
              (Pending p, w') \<Rightarrow> (Suspended p, w')
            | (Rejected, w') \<Rightarrow> autoscroll_loop cfg curParams w')
      else (Returned, w))"
  by pat_completeness auto
termination
proof (relation "measure (\<lambda>(cfg, curParams, w). if inProgressJS w then 0 else 1)")
  show "wf (measure (\<lambda>(cfg, curParams, w). if inProgressJS w then 0 else (1::nat)))"
    by simp
next
  fix cfg curParams w x and y :: world
  assume s: "shouldScroll cfg curParams w"
    and r: "(x, y) = scrollToAsync cfg (targetOffset cfg curParams w) w"
  have "\<not> inProgressJS w"
  proof
    assume "inProgressJS w"
    then have "targetOffset cfg curParams w = Num (- 1)"
      by (simp add: targetOffset_def getScrollTargetOffset_def)
    with s show False by (simp add: shouldScroll_def Let_def)
  qed
  moreover have "inProgressJS y"
    using r by (auto simp add: scrollToAsync_def Let_def split: flatlist.splits)
  ultimately show "((cfg, curParams, y), (cfg, curParams, w))
      \<in> measure (\<lambda>(cfg, curParams, w). if inProgressJS w then 0 else 1)"
    by simp
qed

text \<open>
  \<open>exit_loop\<close> is the \<open>finally\<close> clause. \<open>autoscroll\<close> returns at once when the guard is
  held. \<open>onAutoscrollComplete\<close> clears the JS-side flag and calls the stored resolve
  function: a loop suspended on its promise continues with the parameters as
  \<open>curParams\<close>; resolving a promise that is settled does nothing.
\<close>

definition exit_loop :: "world \<Rightarrow> world" where
  "exit_loop w = w\<lparr>autoscrollLooping := False, instances := instances w - 1\<rparr>"

fun after_loop :: "outcome \<times> world \<Rightarrow> world" where
  "after_loop (Suspended p, w) = w\<lparr>awaited := awaited w @ [p]\<rparr>"
| "after_loop (Returned, w) = exit_loop w"
| "after_loop (Thrown, w) = exit_loop w"

definition autoscroll :: "config \<Rightarrow> jsnum list \<Rightarrow> world \<Rightarrow> world" where
  "autoscroll cfg params w =
     (if autoscrollLooping w then w
      else after_loop (autoscroll_loop cfg params
             (w\<lparr>autoscrollLooping := True, instances := instances w + 1\<rparr>)))"

definition onAutoscrollComplete :: "config \<Rightarrow> jsnum list \<Rightarrow> world \<Rightarrow> world" where
  "onAutoscrollComplete cfg params w =
     (let w1 = w\<lparr>inProgressJS := False\<rparr>
      in case resolveAutoscroll w1 of
           None \<Rightarrow> w1
         | Some p \<Rightarrow>
             if p \<in> set (awaited w1)
             then after_loop (autoscroll_loop cfg params (w1\<lparr>awaited := removeAll p (awaited w1)\<rparr>))
             else w1)"

text \<open>
  Evaluating a node on the native side and running the callbacks it called; the events
  of the hook: a call of \<open>autoscroll\<close> or \<open>onAutoscrollComplete\<close>, a change of
  \<open>isDraggingCell\<close> (its \<open>onChange\<close> node sets \<open>isDraggingCellJS\<close> to \<open>!!v\<close>), a change of any
  animated value, and the evaluation of \<open>checkAutoscroll\<close> and of \<open>onScrollNode\<close>.
\<close>

fun dispatch :: "config \<Rightarrow> world \<Rightarrow> callback \<times> jsnum list \<Rightarrow> world" where
  "dispatch cfg w (autoscroll_cb, args) = autoscroll cfg args w"
| "dispatch cfg w (onAutoscrollComplete_cb, args) = onAutoscrollComplete cfg args w"

definition run_node :: "config \<Rightarrow> action \<Rightarrow> world \<Rightarrow> world" where
  "run_node cfg node w =
     (case exec node (animated w) of (s', cs) \<Rightarrow> foldl (dispatch cfg) (w\<lparr>animated := s'\<rparr>) cs)"

datatype event =
    Trigger "jsnum list"
  | Complete "jsnum list"
  | DragChanged jsnum
  | ValueChanged anim jsnum
  | CheckAutoscroll
  | OnScroll

fun step :: "config \<Rightarrow> world \<Rightarrow> event \<Rightarrow> world" where
  "step cfg w (Trigger params) = autoscroll cfg params w"
| "step cfg w (Complete params) = onAutoscrollComplete cfg params w"
| "step cfg w (DragChanged v) =
     w\<lparr>animated := (animated w)(isDraggingCell := v), isDraggingCellJS := truthy v\<rparr>"
| "step cfg w (ValueChanged a v) = w\<lparr>animated := (animated w)(a := v)\<rparr>"
| "step cfg w CheckAutoscroll = run_node cfg (checkAutoscroll cfg) w"
| "step cfg w OnScroll = run_node cfg (onScrollNode cfg) w"

definition run :: "config \<Rightarrow> world \<Rightarrow> event list \<Rightarrow> world" where
  "run cfg w es = foldl (step cfg) w es"

text \<open>
  An event that sets the drag flag; and the events of the running system, in which the
  two callbacks are called by the nodes only and nothing but the hook writes
  \<open>targetScrollOffset\<close> and \<open>isAutoScrollInProgressNative\<close>.
\<close>

definition starts_drag :: "event \<Rightarrow> bool" where
  "starts_drag e = (case e of DragChanged v \<Rightarrow> truthy v | _ \<Rightarrow> False)"

definition system_event :: "event \<Rightarrow> bool" where
  "system_event e =
     (case e of
        Trigger _ \<Rightarrow> False
      | Complete _ \<Rightarrow> False
      | ValueChanged a _ \<Rightarrow> a \<noteq> targetScrollOffset \<and> a \<noteq> isAutoScrollInProgressNative
      | _ \<Rightarrow> True)"

text \<open>
  Between two events: as many suspended loops as calls of \<open>autoscroll\<close> in progress, one
  when the guard is held and none otherwise; a loop is suspended on the promise of the
  stored resolve function; a set native flag has such a loop.
\<close>

definition single_flight :: "world \<Rightarrow> bool" where
  "single_flight w =
     (instances w = int (length (awaited w))
      \<and> instances w = (if autoscrollLooping w then 1 else 0))"

definition await_pending :: "world \<Rightarrow> bool" where
  "await_pending w = (case resolveAutoscroll w of None \<Rightarrow> False | Some p \<Rightarrow> awaited w = [p])"

definition in_flight :: "world \<Rightarrow> bool" where
  "in_flight w = (if truthy (animated w isAutoScrollInProgressNative) then await_pending w else True)"

text \<open>
  The scenario of the specification after the drag has started and the edge trigger was
  evaluated; and the animated values when the list has scrolled to 121 of the 120 asked.
\<close>

definition scenario :: world where
  "scenario = run example_config (mount (numbers example_values)) [DragChanged (Num 1), CheckAutoscroll]"

definition in_flight_values :: "anim \<Rightarrow> real" where
  "in_flight_values =
     example_values(targetScrollOffset := 120, isAutoScrollInProgressNative := 1, scrollOffset := 121)"

subsection \<open>What the two effectful nodes do\<close>

lemma geometry_values:
  "geometry cfg s =
     [ev s distToTopEdge, ev s distToBottomEdge, s scrollOffset, ev s (isScrolledUp cfg),
      ev s (isScrolledDown cfg)]"
  by (simp add: geometry_def autoscrollParams_def)

lemma geometry_native: "geometry cfg (s(isAutoScrollInProgressNative := x)) = geometry cfg s"
  by (simp add: geometry_def autoscrollParams_def distToTopEdge_def distToBottomEdge_def
      isScrolledUp_def isScrolledDown_def)

lemma geometry_numbers:
  "geometry cfg (numbers v) =
     [Num (max 0 (v hoverAnim)),
      Num (max 0 (v containerSize - (v hoverAnim + v activeCellSize))),
      Num (v scrollOffset),
      of_flag (v scrollOffset - SCROLL_POSITION_TOLERANCE cfg \<le> 0),
      of_flag (v scrollOffset + v containerSize + SCROLL_POSITION_TOLERANCE cfg \<ge> v scrollViewSize)]"
  by (simp only: geometry_values ev_distToTopEdge ev_distToBottomEdge ev_isScrolledUp
      ev_isScrolledDown) (simp add: numbers_def)

lemma triggers_iff:
  "triggers cfg s =
     (truthy (ev s (isAtEdge cfg))
      \<and> \<not> (truthy (ev s (isAtTopEdge cfg)) \<and> truthy (ev s (isScrolledUp cfg)))
      \<and> \<not> (truthy (ev s (isAtBottomEdge cfg)) \<and> truthy (ev s (isScrolledDown cfg)))
      \<and> jeq (s panGestureState) (Num (ACTIVE cfg))
      \<and> \<not> truthy (s isAutoScrollInProgressNative))"
  by (simp add: triggers_def checkAutoscroll_def)

lemma exec_checkAutoscroll:
  "exec (checkAutoscroll cfg) s = (s, if triggers cfg s then [(autoscroll_cb, geometry cfg s)] else [])"
  by (simp add: triggers_def checkAutoscroll_def geometry_def)

lemma fires_iff:
  "fires cfg s =
     (truthy (s isAutoScrollInProgressNative)
      \<and> (jle (jabs (jsub (s targetScrollOffset) (s scrollOffset)))
            (Num (SCROLL_POSITION_TOLERANCE cfg))
         \<or> (truthy (ev s (isScrolledUp cfg)) \<and> jle (s targetScrollOffset) (s scrollOffset))
         \<or> (truthy (ev s (isScrolledDown cfg)) \<and> jge (s targetScrollOffset) (s scrollOffset))))"
  by (simp add: fires_def onScrollNode_def)

lemma exec_onScrollNode:
  "exec (onScrollNode cfg) s =
     (if fires cfg s
      then (s(isAutoScrollInProgressNative := Num 0), [(onAutoscrollComplete_cb, geometry cfg s)])
      else (s, []))"
proof -
  have "map (ev (s(isAutoScrollInProgressNative := Num 0))) (autoscrollParams cfg) = geometry cfg s"
    using geometry_native [of cfg s "Num 0"] by (simp add: geometry_def)
  moreover have "ev s (constN 0) = Num 0"
    by simp
  ultimately show ?thesis
    by (simp add: fires_def onScrollNode_def del: ev.simps list.map map_eq_Cons_conv)
qed

lemma run_node_checkAutoscroll:
  "run_node cfg (checkAutoscroll cfg) w =
     (if triggers cfg (animated w) then autoscroll cfg (geometry cfg (animated w)) w else w)"
  by (simp add: run_node_def exec_checkAutoscroll)

lemma run_node_onScrollNode:
  "run_node cfg (onScrollNode cfg) w =
     (if fires cfg (animated w)
      then onAutoscrollComplete cfg (geometry cfg (animated w))
             (w\<lparr>animated := (animated w)(isAutoScrollInProgressNative := Num 0)\<rparr>)
      else w)"
  by (simp add: run_node_def exec_onScrollNode)

subsection \<open>The loop\<close>

declare autoscroll_loop.simps [simp del]

lemma shouldScroll_idle: "shouldScroll cfg curParams w \<Longrightarrow> \<not> inProgressJS w"
proof
  assume s: "shouldScroll cfg curParams w" and "inProgressJS w"
  then have "targetOffset cfg curParams w = Num (- 1)"
    by (simp add: targetOffset_def getScrollTargetOffset_def)
  with s show False by (simp add: shouldScroll_def Let_def)
qed

lemma shouldScroll_dragging: "shouldScroll cfg curParams w \<Longrightarrow> isDraggingCellJS w"
  by (simp add: shouldScroll_def Let_def)

lemma scrollToAsync_keeps:
  assumes "scrollToAsync cfg t w = (r, w')"
  shows "autoscrollLooping w' = autoscrollLooping w" "awaited w' = awaited w"
    "instances w' = instances w" "isDraggingCellJS w' = isDraggingCellJS w"
  using assms by (auto simp add: scrollToAsync_def Let_def split: flatlist.splits)

lemma scrollToAsync_sets:
  assumes "scrollToAsync cfg t w = (r, w')"
  shows "inProgressJS w'" "resolveAutoscroll w' = Some (promises w)"
    "animated w' isAutoScrollInProgressNative = Num 1" "animated w' targetScrollOffset = t"
  using assms by (auto simp add: scrollToAsync_def Let_def split: flatlist.splits)

lemma autoscroll_loop_returns:
  "\<not> shouldScroll cfg curParams w \<Longrightarrow> autoscroll_loop cfg curParams w = (Returned, w)"
  by (simp add: autoscroll_loop.simps)

lemma autoscroll_loop_suspends:
  assumes "shouldScroll cfg curParams w" "flatlistRef cfg \<noteq> Throws"
  shows "autoscroll_loop cfg curParams w =
     (Suspended (promises w), snd (scrollToAsync cfg (targetOffset cfg curParams w) w))"
  using assms
  by (cases "flatlistRef cfg") (simp_all add: autoscroll_loop.simps scrollToAsync_def Let_def)

text \<open>
  A scroll command that throws rejects the promise; the loop swallows the rejection and
  runs again on the same parameters, finds the JS-side flag set, and returns.
\<close>

lemma autoscroll_loop_rejected:
  assumes "shouldScroll cfg curParams w" "flatlistRef cfg = Throws"
  shows "autoscroll_loop cfg curParams w =
     (Returned, snd (scrollToAsync cfg (targetOffset cfg curParams w) w))"
proof -
  obtain x y where xy: "scrollToAsync cfg (targetOffset cfg curParams w) w = (x, y)"
    by (cases "scrollToAsync cfg (targetOffset cfg curParams w) w")
  have x: "x = Rejected" and js: "inProgressJS y"
    using xy assms(2) by (auto simp add: scrollToAsync_def Let_def)
  from js have "\<not> shouldScroll cfg curParams y"
    using shouldScroll_idle by blast
  then have "autoscroll_loop cfg curParams y = (Returned, y)"
    by (rule autoscroll_loop_returns)
  with assms(1) xy x have "autoscroll_loop cfg curParams w = (Returned, y)"
    by (subst autoscroll_loop.simps) simp
  with xy show ?thesis by simp
qed

lemma autoscroll_loop_keeps:
  "autoscroll_loop cfg curParams w = (r, w') \<Longrightarrow>
     autoscrollLooping w' = autoscrollLooping w \<and> awaited w' = awaited w
     \<and> instances w' = instances w \<and> isDraggingCellJS w' = isDraggingCellJS w \<and> r \<noteq> Thrown"
proof (induction cfg curParams w rule: autoscroll_loop.induct)
  case (1 cfg curParams w)
  show ?case
  proof (cases "shouldScroll cfg curParams w")
    case False
    with "1.prems" show ?thesis by (simp add: autoscroll_loop.simps)
  next
    case True
    obtain x y where xy: "scrollToAsync cfg (targetOffset cfg curParams w) w = (x, y)"
      by (cases "scrollToAsync cfg (targetOffset cfg curParams w) w")
    note keeps = scrollToAsync_keeps [OF xy]
    show ?thesis
    proof (cases x)
      case (Pending p)
      with True xy "1.prems" keeps show ?thesis
        by (auto simp add: autoscroll_loop.simps)
    next
      case Rejected
      with True xy "1.prems" have "autoscroll_loop cfg curParams y = (r, w')"
        by (simp add: autoscroll_loop.simps)
      with "1.IH" [OF True xy [symmetric] Rejected] keeps show ?thesis by simp
    qed
  qed
qed

lemma autoscroll_loop_not_dragging:
  "\<not> isDraggingCellJS w \<Longrightarrow> autoscroll_loop cfg curParams w = (Returned, w)"
  using shouldScroll_dragging [of cfg curParams w] by (auto simp add: autoscroll_loop.simps)

subsection \<open>One loop at a time\<close>

lemma after_loop_single_flight:
  assumes "autoscroll_loop cfg curParams w = (r, w')"
    and "awaited w = []" "instances w = 1" "autoscrollLooping w"
  shows "single_flight (after_loop (r, w'))"
proof -
  note k = autoscroll_loop_keeps [OF assms(1)]
  show ?thesis
    using k assms(2-4) by (cases r) (simp_all add: single_flight_def exit_loop_def)
qed

lemma autoscroll_single:
  assumes "single_flight w"
  shows "single_flight (autoscroll cfg params w)"
proof (cases "autoscrollLooping w")
  case True
  with assms show ?thesis by (simp add: autoscroll_def)
next
  case False
  let ?w = "w\<lparr>autoscrollLooping := True, instances := instances w + 1\<rparr>"
  obtain r w' where l: "autoscroll_loop cfg params ?w = (r, w')"
    by (cases "autoscroll_loop cfg params ?w")
  have idle: "awaited w = []" "instances w = 0"
    using assms False by (auto simp add: single_flight_def)
  have "single_flight (after_loop (r, w'))"
    using idle by (intro after_loop_single_flight [OF l]) simp_all
  with False l show ?thesis by (simp add: autoscroll_def)
qed

lemma onAutoscrollComplete_single:
  assumes "single_flight w"
  shows "single_flight (onAutoscrollComplete cfg params w)"
proof (cases "resolveAutoscroll w")
  case None
  with assms show ?thesis by (simp add: onAutoscrollComplete_def single_flight_def)
next
  case (Some p)
  show ?thesis
  proof (cases "p \<in> set (awaited w)")
    case False
    with Some assms show ?thesis by (simp add: onAutoscrollComplete_def single_flight_def)
  next
    case True
    then have len: "length (awaited w) = 1" and lp: "autoscrollLooping w"
      using assms by (auto simp add: single_flight_def split: if_splits)
    with True have aw: "awaited w = [p]"
      by (cases "awaited w") auto
    let ?w = "w\<lparr>inProgressJS := False, awaited := []\<rparr>"
    obtain r w' where l: "autoscroll_loop cfg params ?w = (r, w')"
      by (cases "autoscroll_loop cfg params ?w")
    have one: "instances w = 1"
      using assms lp by (simp add: single_flight_def)
    have "single_flight (after_loop (r, w'))"
      using one lp by (intro after_loop_single_flight [OF l]) simp_all
    with Some aw l show ?thesis by (simp add: onAutoscrollComplete_def)
  qed
qed

lemma dispatch_single: "single_flight w \<Longrightarrow> single_flight (dispatch cfg w c)"
  by (cases c; cases "fst c") (simp_all add: autoscroll_single onAutoscrollComplete_single)

lemma foldl_dispatch_single:
  "single_flight w \<Longrightarrow> single_flight (foldl (dispatch cfg) w cs)"
  by (induction cs arbitrary: w) (simp_all add: dispatch_single)

lemma run_node_single: "single_flight w \<Longrightarrow> single_flight (run_node cfg node w)"
proof -
  assume a: "single_flight w"
  obtain s' cs where e: "exec node (animated w) = (s', cs)"
    by (cases "exec node (animated w)")
  have "single_flight (w\<lparr>animated := s'\<rparr>)"
    using a by (simp add: single_flight_def)
  then show ?thesis
    using e by (simp add: run_node_def foldl_dispatch_single)
qed

lemma step_single: "single_flight w \<Longrightarrow> single_flight (step cfg w e)"
proof (cases e)
  case (DragChanged v)
  assume "single_flight w"
  with DragChanged show ?thesis by (simp add: single_flight_def)
next
  case (ValueChanged a v)
  assume "single_flight w"
  with ValueChanged show ?thesis by (simp add: single_flight_def)
qed (simp_all add: autoscroll_single onAutoscrollComplete_single run_node_single)

lemma run_single: "single_flight w \<Longrightarrow> single_flight (run cfg w es)"
  unfolding run_def by (induction es arbitrary: w) (simp_all add: step_single)

lemma mount_single: "single_flight (mount s)"
  by (simp add: mount_def single_flight_def)

subsection \<open>A set native flag has a loop waiting for it\<close>

lemma await_pending_animated [simp]: "await_pending (w\<lparr>animated := s\<rparr>) = await_pending w"
  by (simp add: await_pending_def split: option.splits)

lemma single_flight_animated [simp]: "single_flight (w\<lparr>animated := s\<rparr>) = single_flight w"
  by (simp add: single_flight_def)

lemma fires_native: "fires cfg s \<Longrightarrow> truthy (s isAutoScrollInProgressNative)"
  by (simp add: fires_iff)

lemma after_loop_in_flight:
  assumes "flatlistRef cfg \<noteq> Throws"
    and "awaited w = []" "instances w = 1" "autoscrollLooping w"
    and "\<not> truthy (animated w isAutoScrollInProgressNative)"
  shows "single_flight (after_loop (autoscroll_loop cfg curParams w))
       \<and> in_flight (after_loop (autoscroll_loop cfg curParams w))"
proof (cases "shouldScroll cfg curParams w")
  case False
  then have "autoscroll_loop cfg curParams w = (Returned, w)"
    by (rule autoscroll_loop_returns)
  with assms show ?thesis
    by (simp add: single_flight_def in_flight_def exit_loop_def)
next
  case True
  obtain x y where xy: "scrollToAsync cfg (targetOffset cfg curParams w) w = (x, y)"
    by (cases "scrollToAsync cfg (targetOffset cfg curParams w) w")
  note k = scrollToAsync_keeps [OF xy] and t = scrollToAsync_sets [OF xy]
  have "autoscroll_loop cfg curParams w = (Suspended (promises w), y)"
    using autoscroll_loop_suspends [OF True assms(1)] xy by simp
  with assms k t show ?thesis
    by (simp add: single_flight_def in_flight_def await_pending_def)
qed

lemma autoscroll_in_flight:
  assumes "flatlistRef cfg \<noteq> Throws" "single_flight w" "in_flight w"
  shows "single_flight (autoscroll cfg params w) \<and> in_flight (autoscroll cfg params w)"
proof (cases "autoscrollLooping w")
  case True
  with assms show ?thesis by (simp add: autoscroll_def)
next
  case False
  have idle: "awaited w = []" "instances w = 0"
    using assms(2) False by (auto simp add: single_flight_def)
  have "\<not> truthy (animated w isAutoScrollInProgressNative)"
    using assms(3) idle by (auto simp add: in_flight_def await_pending_def split: if_splits option.splits)
  then show ?thesis
    using False idle
      after_loop_in_flight [OF assms(1),
        of "w\<lparr>autoscrollLooping := True, instances := instances w + 1\<rparr>" params]
    by (simp add: autoscroll_def)
qed

lemma onAutoscrollComplete_in_flight:
  assumes "flatlistRef cfg \<noteq> Throws" "single_flight w" "await_pending w"
    and "\<not> truthy (animated w isAutoScrollInProgressNative)"
  shows "single_flight (onAutoscrollComplete cfg params w) \<and> in_flight (onAutoscrollComplete cfg params w)"
proof -
  obtain p where p: "resolveAutoscroll w = Some p" "awaited w = [p]"
    using assms(3) by (auto simp add: await_pending_def split: option.splits)
  have one: "instances w = 1" "autoscrollLooping w"
    using assms(2) p by (auto simp add: single_flight_def split: if_splits)
  show ?thesis
    using p one assms(4)
      after_loop_in_flight [OF assms(1), of "w\<lparr>inProgressJS := False, awaited := []\<rparr>" params]
    by (simp add: onAutoscrollComplete_def)
qed

lemma step_in_flight:
  assumes "flatlistRef cfg \<noteq> Throws" "system_event e" "single_flight w" "in_flight w"
  shows "single_flight (step cfg w e) \<and> in_flight (step cfg w e)"
proof (cases e)
  case (Trigger ps)
  with assms(2) show ?thesis by (simp add: system_event_def)
next
  case (Complete ps)
  with assms(2) show ?thesis by (simp add: system_event_def)
next
  case (DragChanged v)
  with assms(3,4) show ?thesis
    by (auto simp add: single_flight_def in_flight_def await_pending_def
        split: if_splits option.splits)
next
  case (ValueChanged a v)
  with assms(2,3,4) show ?thesis
    by (auto simp add: system_event_def single_flight_def in_flight_def await_pending_def
        split: if_splits option.splits)
next
  case CheckAutoscroll
  with assms autoscroll_in_flight [OF assms(1,3,4)] show ?thesis
    by (simp add: run_node_checkAutoscroll)
next
  case OnScroll
  show ?thesis
  proof (cases "fires cfg (animated w)")
    case False
    with OnScroll assms show ?thesis by (simp add: run_node_onScrollNode)
  next
    case True
    let ?w = "w\<lparr>animated := (animated w)(isAutoScrollInProgressNative := Num 0)\<rparr>"
    have "await_pending w"
      using fires_native [OF True] assms(4) by (simp add: in_flight_def)
    then have "single_flight ?w" "await_pending ?w"
      "\<not> truthy (animated ?w isAutoScrollInProgressNative)"
      using assms(3) by simp_all
    from onAutoscrollComplete_in_flight [OF assms(1) this] OnScroll True show ?thesis
      by (simp add: run_node_onScrollNode)
  qed
qed

lemma run_in_flight:
  "flatlistRef cfg \<noteq> Throws \<Longrightarrow> list_all system_event es \<Longrightarrow> single_flight w \<Longrightarrow> in_flight w \<Longrightarrow>
     single_flight (run cfg w es) \<and> in_flight (run cfg w es)"
proof (induction es arbitrary: w)
  case Nil
  then show ?case by (simp add: run_def)
next
  case (Cons e es)
  then have e: "system_event e" and es: "list_all system_event es" by simp_all
  note s = step_in_flight [OF Cons.prems(1) e Cons.prems(3,4)]
  from Cons.IH [OF Cons.prems(1) es, of "step cfg w e"] s show ?case by (simp add: run_def)
qed

lemma mount_in_flight: "in_flight (mount s)"
  by (simp add: mount_def in_flight_def)

subsection \<open>After the drag has ended\<close>

lemma autoscroll_after_drag:
  assumes "\<not> isDraggingCellJS w"
  shows "scrollCommands (autoscroll cfg params w) = scrollCommands w
       \<and> \<not> isDraggingCellJS (autoscroll cfg params w)"
  using assms by (simp add: autoscroll_def autoscroll_loop_not_dragging exit_loop_def)

lemma onAutoscrollComplete_after_drag:
  assumes "\<not> isDraggingCellJS w"
  shows "scrollCommands (onAutoscrollComplete cfg params w) = scrollCommands w
       \<and> \<not> isDraggingCellJS (onAutoscrollComplete cfg params w)"
proof -
  have "after_loop (autoscroll_loop cfg params (w\<lparr>inProgressJS := False, awaited := a\<rparr>))
      = exit_loop (w\<lparr>inProgressJS := False, awaited := a\<rparr>)" for a
    using assms by (simp add: autoscroll_loop_not_dragging)
  then show ?thesis
    using assms by (simp add: onAutoscrollComplete_def Let_def exit_loop_def split: option.splits)
qed

lemma dispatch_after_drag:
  assumes "\<not> isDraggingCellJS w"
  shows "scrollCommands (dispatch cfg w c) = scrollCommands w \<and> \<not> isDraggingCellJS (dispatch cfg w c)"
  using assms
  by (cases c; cases "fst c") (simp_all add: autoscroll_after_drag onAutoscrollComplete_after_drag)

lemma foldl_dispatch_after_drag:
  "\<not> isDraggingCellJS w \<Longrightarrow>
     scrollCommands (foldl (dispatch cfg) w cs) = scrollCommands w
     \<and> \<not> isDraggingCellJS (foldl (dispatch cfg) w cs)"
proof (induction cs arbitrary: w)
  case Nil
  then show ?case by simp
next
  case (Cons c cs)
  from dispatch_after_drag [OF Cons.prems, of cfg c] Cons.IH [of "dispatch cfg w c"]
  show ?case by simp
qed

lemma run_node_after_drag:
  assumes "\<not> isDraggingCellJS w"
  shows "scrollCommands (run_node cfg node w) = scrollCommands w
       \<and> \<not> isDraggingCellJS (run_node cfg node w)"
proof -
  obtain s' cs where e: "exec node (animated w) = (s', cs)"
    by (cases "exec node (animated w)")
  have "\<not> isDraggingCellJS (w\<lparr>animated := s'\<rparr>)" using assms by simp
  from foldl_dispatch_after_drag [OF this, of cfg cs] e show ?thesis
    by (simp add: run_node_def)
qed

lemma step_after_drag:
  assumes "\<not> isDraggingCellJS w" "\<not> starts_drag e"
  shows "scrollCommands (step cfg w e) = scrollCommands w \<and> \<not> isDraggingCellJS (step cfg w e)"
  using assms
  by (cases e)
    (simp_all add: autoscroll_after_drag onAutoscrollComplete_after_drag run_node_after_drag
      starts_drag_def)

lemma run_after_drag:
  "\<not> isDraggingCellJS w \<Longrightarrow> list_all (\<lambda>e. \<not> starts_drag e) es \<Longrightarrow>
     scrollCommands (run cfg w es) = scrollCommands w \<and> \<not> isDraggingCellJS (run cfg w es)"
proof (induction es arbitrary: w)
  case Nil
  then show ?case by (simp add: run_def)
next
  case (Cons e es)
  then have e: "\<not> starts_drag e" and es: "list_all (\<lambda>e. \<not> starts_drag e) es" by simp_all
  note s = step_after_drag [OF Cons.prems(1) e, of cfg]
  from Cons.IH [of "step cfg w e"] s es show ?case by (simp add: run_def)
qed

subsection \<open>The scenario of the specification\<close>

lemma mount_numbers:
  "mount (numbers v) =
     \<lparr>animated = numbers (v(targetScrollOffset := 0, isAutoScrollInProgressNative := 0)),
      inProgressJS = False, isDraggingCellJS = False, autoscrollLooping = False,
      resolveAutoscroll = None, awaited = [], promises = 0, scrollCommands = [], instances = 0\<rparr>"
  by (simp add: mount_def numbers_upd)

lemma shouldScroll_example:
  "\<not> inProgressJS w \<Longrightarrow> isDraggingCellJS w \<Longrightarrow>
     targetOffset example_config [Num 10, Num 340, Num 200, Num 0, Num 0] w = Num 120
     \<and> shouldScroll example_config [Num 10, Num 340, Num 200, Num 0, Num 0] w"
  by (simp add: shouldScroll_def targetOffset_def param_def getScrollTargetOffset_def Let_def
      offset_finite delta_def effectiveSpeed_def example_config_def)

lemma shouldScroll_resumed:
  "\<not> inProgressJS w \<Longrightarrow> isDraggingCellJS w \<Longrightarrow>
     targetOffset example_config [Num 10, Num 340, Num 121, Num 0, Num 0] w = Num 41
     \<and> shouldScroll example_config [Num 10, Num 340, Num 121, Num 0, Num 0] w"
  by (simp add: shouldScroll_def targetOffset_def param_def getScrollTargetOffset_def Let_def
      offset_finite delta_def effectiveSpeed_def example_config_def)

lemma triggers_example:
  "triggers example_config (numbers (example_values(targetScrollOffset := 0,
      isAutoScrollInProgressNative := 0, isDraggingCell := 1)))"
  by (simp only: triggers_iff ev_isAtEdge ev_isAtTopEdge ev_isAtBottomEdge ev_isScrolledUp
      ev_isScrolledDown)
    (simp add: numbers_def example_values_def example_config_def)

lemma geometry_example:
  "geometry example_config (numbers (example_values(targetScrollOffset := 0,
      isAutoScrollInProgressNative := 0, isDraggingCell := 1)))
   = [Num 10, Num 340, Num 200, Num 0, Num 0]"
  by (simp add: geometry_numbers example_values_def example_config_def of_flag_def)

text \<open>
  The drag starts and the edge trigger is evaluated: the loop starts, issues one scroll
  command, to offset 120, and is suspended on the promise.
\<close>

lemma scenario_suspended:
  "autoscrollLooping scenario \<and> awaited scenario = [0] \<and> resolveAutoscroll scenario = Some 0
   \<and> scrollCommands scenario = [Num 120] \<and> inProgressJS scenario \<and> isDraggingCellJS scenario
   \<and> instances scenario = 1
   \<and> animated scenario targetScrollOffset = Num 120
   \<and> animated scenario isAutoScrollInProgressNative = Num 1"
proof -
  let ?v = "example_values(targetScrollOffset := 0, isAutoScrollInProgressNative := 0, isDraggingCell := 1)"
  let ?w1 = "step example_config (mount (numbers example_values)) (DragChanged (Num 1))"
  let ?w2 = "?w1\<lparr>autoscrollLooping := True, instances := instances ?w1 + 1\<rparr>"
  let ?ps = "[Num 10, Num 340, Num 200, Num 0, Num 0]"
  have w1: "animated ?w1 = numbers ?v" "\<not> inProgressJS ?w1" "isDraggingCellJS ?w1"
    "\<not> autoscrollLooping ?w1" "awaited ?w1 = []" "promises ?w1 = 0" "scrollCommands ?w1 = []"
    "instances ?w1 = 0"
    by (simp_all add: mount_numbers numbers_upd)
  have s: "targetOffset example_config ?ps ?w2 = Num 120" "shouldScroll example_config ?ps ?w2"
    using shouldScroll_example [of ?w2] w1 by simp_all
  have l: "autoscroll_loop example_config ?ps ?w2
      = (Suspended 0, snd (scrollToAsync example_config (Num 120) ?w2))"
    using autoscroll_loop_suspends [OF s(2)] s(1) w1 by (simp add: example_config_def)
  have "run_node example_config (checkAutoscroll example_config) ?w1
      = autoscroll example_config ?ps ?w1"
    by (simp only: run_node_checkAutoscroll w1(1) triggers_example geometry_example if_True)
  also have "\<dots> = after_loop (autoscroll_loop example_config ?ps ?w2)"
    using w1(4) by (simp only: autoscroll_def if_False)
  finally have sc: "scenario = after_loop (Suspended 0, snd (scrollToAsync example_config (Num 120) ?w2))"
    unfolding scenario_def run_def l by (simp del: step.simps(3))
  show ?thesis
    unfolding sc by (simp add: scrollToAsync_def Let_def example_config_def mount_def)
qed

lemma scenario_pending: "await_pending scenario"
  using scenario_suspended by (simp add: await_pending_def)

section \<open>The edge trigger and the completion detector\<close>

text \<open>
  Claim C3. \<open>checkAutoscroll\<close> makes its call exactly when the five conditions hold:
  \<open>isAtEdge\<close>; not both \<open>isAtTopEdge\<close> and \<open>isScrolledUp\<close>; not both \<open>isAtBottomEdge\<close> and
  \<open>isScrolledDown\<close>; the pan gesture state equal to \<open>ACTIVE\<close>; the native flag not set. The
  call is to \<open>autoscroll\<close> with the values of \<open>distToTopEdge\<close>, \<open>distToBottomEdge\<close>,
  \<open>scrollOffset\<close>, \<open>isScrolledUp\<close>, \<open>isScrolledDown\<close>, and the store is left as it was. Where
  \<open>isAtEdge\<close> is false no call is made.
\<close>

theorem checkAutoscroll_trigger:
  "triggers cfg s =
     (truthy (ev s (isAtEdge cfg))
      \<and> \<not> (truthy (ev s (isAtTopEdge cfg)) \<and> truthy (ev s (isScrolledUp cfg)))
      \<and> \<not> (truthy (ev s (isAtBottomEdge cfg)) \<and> truthy (ev s (isScrolledDown cfg)))
      \<and> jeq (s panGestureState) (Num (ACTIVE cfg))
      \<and> \<not> truthy (s isAutoScrollInProgressNative))
   \<and> exec (checkAutoscroll cfg) s
       = (s, if triggers cfg s then [(autoscroll_cb, geometry cfg s)] else [])
   \<and> geometry cfg s
       = [ev s distToTopEdge, ev s distToBottomEdge, s scrollOffset, ev s (isScrolledUp cfg),
          ev s (isScrolledDown cfg)]
   \<and> run_node cfg (checkAutoscroll cfg) w
       = (if triggers cfg (animated w) then autoscroll cfg (geometry cfg (animated w)) w else w)
   \<and> (\<not> truthy (ev s (isAtEdge cfg)) \<longrightarrow>
        \<not> triggers cfg s \<and> exec (checkAutoscroll cfg) s = (s, []))"
proof -
  have "\<not> truthy (ev s (isAtEdge cfg)) \<longrightarrow>
        \<not> triggers cfg s \<and> exec (checkAutoscroll cfg) s = (s, [])"
    by (simp add: exec_checkAutoscroll) (simp add: triggers_iff)
  with triggers_iff [of cfg s] exec_checkAutoscroll [of cfg s] geometry_values [of cfg s]
    run_node_checkAutoscroll [of cfg w]
  show ?thesis by (intro conjI)
qed

theorem checkAutoscroll_trigger_witness:
  "triggers example_config (numbers example_values)
   \<and> exec (checkAutoscroll example_config) (numbers example_values)
       = (numbers example_values, [(autoscroll_cb, [Num 10, Num 340, Num 200, Num 0, Num 0])])
   \<and> \<not> truthy (ev (numbers (example_values(hoverAnim := 100))) (isAtEdge example_config))
   \<and> exec (checkAutoscroll example_config) (numbers (example_values(hoverAnim := 100)))
       = (numbers (example_values(hoverAnim := 100)), [])"
proof -
  let ?far = "example_values(hoverAnim := 100)"
  note a = checkAutoscroll_trigger [of example_config "numbers example_values"]
  note b = checkAutoscroll_trigger [of example_config "numbers ?far"]
  have t: "triggers example_config (numbers example_values)"
    by (simp only: triggers_iff ev_isAtEdge ev_isAtTopEdge ev_isAtBottomEdge ev_isScrolledUp
        ev_isScrolledDown)
      (simp add: numbers_def example_values_def example_config_def)
  have g: "geometry example_config (numbers example_values) = [Num 10, Num 340, Num 200, Num 0, Num 0]"
    by (simp add: geometry_numbers example_values_def example_config_def of_flag_def)
  have n: "\<not> truthy (ev (numbers ?far) (isAtEdge example_config))"
    by (simp only: ev_isAtEdge ev_isAtTopEdge ev_isAtBottomEdge)
      (simp add: example_values_def example_config_def)
  from a t g have "exec (checkAutoscroll example_config) (numbers example_values)
       = (numbers example_values, [(autoscroll_cb, [Num 10, Num 340, Num 200, Num 0, Num 0])])"
    by simp
  moreover from b n have "exec (checkAutoscroll example_config) (numbers ?far) = (numbers ?far, [])"
    by blast
  ultimately show ?thesis using t n by blast
qed

text \<open>
  Claim C2. \<open>onScrollNode\<close> fires exactly when the native flag is set and the target is
  within the tolerance of the scroll offset, or the list is scrolled up and the target
  is not above the offset, or it is scrolled down and the target is not below the offset
  (second conjunct: on finite values). When it fires it sets the native flag to 0 and
  calls \<open>onAutoscrollComplete\<close> with the snapshot, which resolves the await of the
  suspended loop: the loop continues with the snapshot as its parameters. In a run of
  the system with a list that does not throw, a loop is suspended on that promise
  whenever the detector fires.
\<close>

theorem onScrollNode_completion:
  "fires cfg s =
     (truthy (s isAutoScrollInProgressNative)
      \<and> (jle (jabs (jsub (s targetScrollOffset) (s scrollOffset)))
            (Num (SCROLL_POSITION_TOLERANCE cfg))
         \<or> (truthy (ev s (isScrolledUp cfg)) \<and> jle (s targetScrollOffset) (s scrollOffset))
         \<or> (truthy (ev s (isScrolledDown cfg)) \<and> jge (s targetScrollOffset) (s scrollOffset))))
   \<and> fires cfg (numbers v) =
       (v isAutoScrollInProgressNative \<noteq> 0
        \<and> (\<bar>v targetScrollOffset - v scrollOffset\<bar> \<le> SCROLL_POSITION_TOLERANCE cfg
           \<or> (v scrollOffset - SCROLL_POSITION_TOLERANCE cfg \<le> 0
                \<and> v targetScrollOffset \<le> v scrollOffset)
           \<or> (v scrollOffset + v containerSize + SCROLL_POSITION_TOLERANCE cfg \<ge> v scrollViewSize
                \<and> v targetScrollOffset \<ge> v scrollOffset)))
   \<and> exec (onScrollNode cfg) s =
       (if fires cfg s
        then (s(isAutoScrollInProgressNative := Num 0),
              [(onAutoscrollComplete_cb, geometry cfg s)])
        else (s, []))
   \<and> run_node cfg (onScrollNode cfg) w =
       (if fires cfg (animated w)
        then onAutoscrollComplete cfg (geometry cfg (animated w))
               (w\<lparr>animated := (animated w)(isAutoScrollInProgressNative := Num 0)\<rparr>)
        else w)
   \<and> (await_pending w \<longrightarrow>
        onAutoscrollComplete cfg params w
          = after_loop (autoscroll_loop cfg params (w\<lparr>inProgressJS := False, awaited := []\<rparr>)))
   \<and> (flatlistRef cfg \<noteq> Throws \<and> list_all system_event es
        \<and> fires cfg (animated (run cfg (mount s0) es)) \<longrightarrow>
        await_pending (run cfg (mount s0) es))"
proof -
  have f: "fires cfg (numbers v) =
       (v isAutoScrollInProgressNative \<noteq> 0
        \<and> (\<bar>v targetScrollOffset - v scrollOffset\<bar> \<le> SCROLL_POSITION_TOLERANCE cfg
           \<or> (v scrollOffset - SCROLL_POSITION_TOLERANCE cfg \<le> 0
                \<and> v targetScrollOffset \<le> v scrollOffset)
           \<or> (v scrollOffset + v containerSize + SCROLL_POSITION_TOLERANCE cfg \<ge> v scrollViewSize
                \<and> v targetScrollOffset \<ge> v scrollOffset)))"
    by (simp only: fires_iff ev_isScrolledUp ev_isScrolledDown) (simp add: numbers_def)
  have c: "await_pending w \<longrightarrow>
        onAutoscrollComplete cfg params w
          = after_loop (autoscroll_loop cfg params (w\<lparr>inProgressJS := False, awaited := []\<rparr>))"
    by (auto simp add: await_pending_def onAutoscrollComplete_def split: option.splits)
  have i: "flatlistRef cfg \<noteq> Throws \<and> list_all system_event es
        \<and> fires cfg (animated (run cfg (mount s0) es)) \<longrightarrow>
        await_pending (run cfg (mount s0) es)"
  proof
    assume a: "flatlistRef cfg \<noteq> Throws \<and> list_all system_event es
        \<and> fires cfg (animated (run cfg (mount s0) es))"
    then have "in_flight (run cfg (mount s0) es)"
      using run_in_flight [of cfg es "mount s0"] mount_single mount_in_flight by blast
    moreover have "truthy (animated (run cfg (mount s0) es) isAutoScrollInProgressNative)"
      using a fires_native by blast
    ultimately show "await_pending (run cfg (mount s0) es)"
      by (simp add: in_flight_def)
  qed
  from fires_iff [of cfg s] f exec_onScrollNode [of cfg s] run_node_onScrollNode [of cfg w] c i
  show ?thesis by (intro conjI)
qed

theorem onScrollNode_completion_witness:
  "fires example_config (numbers in_flight_values)
   \<and> exec (onScrollNode example_config) (numbers in_flight_values)
       = ((numbers in_flight_values)(isAutoScrollInProgressNative := Num 0),
          [(onAutoscrollComplete_cb, [Num 10, Num 340, Num 121, Num 0, Num 0])])
   \<and> await_pending scenario
   \<and> scrollCommands (onAutoscrollComplete example_config [Num 10, Num 340, Num 121, Num 0, Num 0]
        scenario) = [Num 120, Num 41]"
proof -
  let ?ps = "[Num 10, Num 340, Num 121, Num 0, Num 0]"
  let ?w = "scenario\<lparr>inProgressJS := False, awaited := []\<rparr>"
  note t = onScrollNode_completion [of example_config "numbers in_flight_values" in_flight_values
      scenario ?ps "[]" "numbers example_values"]
  have g: "geometry example_config (numbers in_flight_values) = ?ps"
    by (simp add: geometry_numbers in_flight_values_def example_values_def example_config_def
        of_flag_def)
  have fires: "v = in_flight_values \<Longrightarrow> v isAutoScrollInProgressNative \<noteq> 0
         \<and> \<bar>v targetScrollOffset - v scrollOffset\<bar> \<le> SCROLL_POSITION_TOLERANCE example_config" for v
    by (simp add: in_flight_values_def example_values_def example_config_def)
  have f: "fires example_config (numbers in_flight_values)"
    using t fires [OF refl] by blast
  have ex: "exec (onScrollNode example_config) (numbers in_flight_values)
      = ((numbers in_flight_values)(isAutoScrollInProgressNative := Num 0),
         [(onAutoscrollComplete_cb, ?ps)])"
    using t f g by simp
  have s: "targetOffset example_config ?ps ?w = Num 41" "shouldScroll example_config ?ps ?w"
    using shouldScroll_resumed [of ?w] scenario_suspended by simp_all
  have l: "autoscroll_loop example_config ?ps ?w
      = (Suspended (promises ?w), snd (scrollToAsync example_config (Num 41) ?w))"
    using autoscroll_loop_suspends [OF s(2)] s(1) by (simp add: example_config_def)
  have oc: "onAutoscrollComplete example_config ?ps scenario
      = after_loop (autoscroll_loop example_config ?ps ?w)"
    using t scenario_pending by blast
  have "scrollCommands (onAutoscrollComplete example_config ?ps scenario) = [Num 120, Num 41]"
    unfolding oc l using scenario_suspended
    by (simp add: scrollToAsync_def Let_def example_config_def)
  with f ex scenario_pending show ?thesis by simp
qed

section \<open>The loop guard\<close>

text \<open>
  Claim C5. Called with the guard held, \<open>autoscroll\<close> returns the state unchanged. After
  any sequence of events from the mounted hook at most one call of \<open>autoscroll\<close> is in
  progress, suspended on its promise, and the guard is held exactly then. The \<open>finally\<close>
  clause releases the guard on a return and on an exception, so after a call that found
  the guard free the guard is held only if the loop is suspended.
\<close>

theorem autoscroll_single_flight:
  "(autoscrollLooping w \<longrightarrow> autoscroll cfg params w = w)
   \<and> single_flight (run cfg (mount s) es)
   \<and> instances (run cfg (mount s) es) \<le> 1
   \<and> length (awaited (run cfg (mount s) es)) \<le> 1
   \<and> \<not> autoscrollLooping (after_loop (Returned, w))
   \<and> \<not> autoscrollLooping (after_loop (Thrown, w))
   \<and> (\<not> autoscrollLooping w \<longrightarrow>
        autoscrollLooping (autoscroll cfg params w)
          = (\<exists>p. fst (autoscroll_loop cfg params
                (w\<lparr>autoscrollLooping := True, instances := instances w + 1\<rparr>)) = Suspended p))"
proof -
  have inv: "single_flight (run cfg (mount s) es)"
    by (simp add: run_single mount_single)
  then have le: "instances (run cfg (mount s) es) \<le> 1"
    "length (awaited (run cfg (mount s) es)) \<le> 1"
    by (auto simp add: single_flight_def split: if_splits)
  have guard: "\<not> autoscrollLooping w \<longrightarrow>
        autoscrollLooping (autoscroll cfg params w)
          = (\<exists>p. fst (autoscroll_loop cfg params
                (w\<lparr>autoscrollLooping := True, instances := instances w + 1\<rparr>)) = Suspended p)"
  proof
    assume f: "\<not> autoscrollLooping w"
    let ?w = "w\<lparr>autoscrollLooping := True, instances := instances w + 1\<rparr>"
    obtain r w' where l: "autoscroll_loop cfg params ?w = (r, w')"
      by (cases "autoscroll_loop cfg params ?w")
    note k = autoscroll_loop_keeps [OF l]
    show "autoscrollLooping (autoscroll cfg params w)
        = (\<exists>p. fst (autoscroll_loop cfg params ?w) = Suspended p)"
      using f l k by (cases r) (simp_all add: autoscroll_def exit_loop_def)
  qed
  show ?thesis
    using inv le guard by (simp add: autoscroll_def exit_loop_def)
qed

theorem autoscroll_single_flight_witness:
  "autoscrollLooping scenario
   \<and> autoscroll example_config [Num 10, Num 340, Num 200, Num 0, Num 0] scenario = scenario
   \<and> instances scenario \<le> 1 \<and> length (awaited scenario) \<le> 1"
  using autoscroll_single_flight [of scenario example_config "[Num 10, Num 340, Num 200, Num 0, Num 0]"
      "numbers example_values" "[DragChanged (Num 1), CheckAutoscroll]"]
    scenario_suspended
  by (simp add: scenario_def [symmetric])

section \<open>The end of the drag\<close>

text \<open>
  Claim C6. With \<open>isDraggingCellJS\<close> false the continuation check \<open>shouldScroll\<close> is false
  and the loop returns without a scroll command. When the drag flag changes to a falsy
  value while a loop is suspended, the next completion makes the loop leave and release
  the guard, the scroll commands as they were. From a state in which the drag has ended,
  no sequence of events without a new drag issues a scroll command.
\<close>

theorem drag_end_stops_loop:
  "(\<not> isDraggingCellJS w \<longrightarrow>
      \<not> shouldScroll cfg params w \<and> autoscroll_loop cfg params w = (Returned, w))
   \<and> (\<not> truthy v \<and> await_pending w \<longrightarrow>
        step cfg (step cfg w (DragChanged v)) (Complete params)
          = exit_loop (w\<lparr>animated := (animated w)(isDraggingCell := v),
                         isDraggingCellJS := False, inProgressJS := False, awaited := []\<rparr>))
   \<and> (\<not> isDraggingCellJS w \<and> list_all (\<lambda>e. \<not> starts_drag e) es \<longrightarrow>
        scrollCommands (run cfg w es) = scrollCommands w \<and> \<not> isDraggingCellJS (run cfg w es))"
proof (intro conjI impI)
  assume "\<not> isDraggingCellJS w"
  then show "\<not> shouldScroll cfg params w"
    using shouldScroll_dragging by blast
  show "autoscroll_loop cfg params w = (Returned, w)"
    using \<open>\<not> isDraggingCellJS w\<close> by (rule autoscroll_loop_not_dragging)
next
  assume a: "\<not> truthy v \<and> await_pending w"
  let ?w = "w\<lparr>animated := (animated w)(isDraggingCell := v), isDraggingCellJS := False,
               inProgressJS := False, awaited := []\<rparr>"
  have "autoscroll_loop cfg params ?w = (Returned, ?w)"
    by (rule autoscroll_loop_not_dragging) simp
  then show "step cfg (step cfg w (DragChanged v)) (Complete params) = exit_loop ?w"
    using a by (auto simp add: onAutoscrollComplete_def await_pending_def split: option.splits)
next
  assume "\<not> isDraggingCellJS w \<and> list_all (\<lambda>e. \<not> starts_drag e) es"
  then show "scrollCommands (run cfg w es) = scrollCommands w"
    and "\<not> isDraggingCellJS (run cfg w es)"
    using run_after_drag [of w es cfg] by simp_all
qed

theorem drag_end_stops_loop_witness:
  "await_pending scenario \<and> isDraggingCellJS scenario
   \<and> scrollCommands (step example_config (step example_config scenario (DragChanged (Num 0)))
        (Complete [Num 10, Num 340, Num 121, Num 0, Num 0])) = [Num 120]
   \<and> \<not> autoscrollLooping (step example_config (step example_config scenario (DragChanged (Num 0)))
        (Complete [Num 10, Num 340, Num 121, Num 0, Num 0]))
   \<and> scrollCommands (run example_config (step example_config scenario (DragChanged (Num 0)))
        [Complete [Num 10, Num 340, Num 121, Num 0, Num 0], CheckAutoscroll,
         Trigger [Num 10, Num 340, Num 121, Num 0, Num 0]]) = [Num 120]"
proof -
  let ?ps = "[Num 10, Num 340, Num 121, Num 0, Num 0]"
  let ?w = "step example_config scenario (DragChanged (Num 0))"
  note a = drag_end_stops_loop [of scenario example_config ?ps "Num 0" "[]"]
  note b = drag_end_stops_loop [of ?w example_config ?ps "Num 0"
      "[Complete ?ps, CheckAutoscroll, Trigger ?ps]"]
  have 1: "step example_config ?w (Complete ?ps)
      = exit_loop (scenario\<lparr>animated := (animated scenario)(isDraggingCell := Num 0),
                         isDraggingCellJS := False, inProgressJS := False, awaited := []\<rparr>)"
    using a scenario_pending by simp
  have 2: "scrollCommands (run example_config ?w [Complete ?ps, CheckAutoscroll, Trigger ?ps])
      = scrollCommands ?w"
    using b by (simp add: starts_drag_def)
  show ?thesis
    unfolding 1 2 using scenario_suspended scenario_pending by (simp add: exit_loop_def)
qed

end
